theory Spec2Isabelle
  imports Complex_Main "HOL-Library.Word"
begin

section \<open>Background mode flags of the responder (pi\_responder.py)\<close>

text \<open>
  The responder keeps three module-level globals: \<open>lora_beacon_active\<close>,
  \<open>lora_echo_active\<close> and \<open>beacon_count\<close>. The four mode-control handlers read and
  assign them. A handler is modelled as a function from the globals to the JSON reply
  and the list of global states it passes through, in program order (one entry per
  assignment, the last entry being the state it leaves behind). \<open>time.sleep\<close> and
  the launch of the daemon thread do not touch the three globals and appear only as
  comments. Handlers are run one after the other.
\<close>

record mode_state =
  lora_beacon_active :: bool
  lora_echo_active :: bool
  beacon_count :: nat

record mode_reply =
  success :: bool
  message :: string
  beacons_sent :: "nat option"



text \<open>
  \<open>lora_beacon_start\<close>: the argument is the text of the request's \<open>interval\<close>
  value when the request is JSON and carries one; the default is 5.
\<close>

definition lora_beacon_start :: "string option \<Rightarrow> mode_state \<Rightarrow> mode_reply \<times> mode_state list" where
  "lora_beacon_start req s =
     (if lora_beacon_active s
      then (\<lparr>success = True, message = ''Already running'', beacons_sent = None\<rparr>, [s])
      else
        let s1 = s\<lparr>lora_echo_active := False\<rparr>;  \<comment> \<open>then \<open>time.sleep(1)\<close>\<close>
            interval = (case req of None \<Rightarrow> ''5'' | Some i \<Rightarrow> i);
            s2 = s1\<lparr>lora_beacon_active := True\<rparr>;
            s3 = s2\<lparr>beacon_count := 0\<rparr>      \<comment> \<open>then the beacon thread is started\<close>
        in (\<lparr>success = True,
             message = ''Beacon started (every '' @ interval @ ''s)'',
             beacons_sent = None\<rparr>, [s1, s2, s3]))"

definition lora_beacon_stop :: "mode_state \<Rightarrow> mode_reply \<times> mode_state list" where
  "lora_beacon_stop s =
     (let s1 = s\<lparr>lora_beacon_active := False\<rparr>
      in (\<lparr>success = True, message = ''Beacon stopping...'',
           beacons_sent = Some (beacon_count s1)\<rparr>, [s1]))"

definition lora_echo_start :: "mode_state \<Rightarrow> mode_reply \<times> mode_state list" where
  "lora_echo_start s =
     (if lora_echo_active s
      then (\<lparr>success = True, message = ''Already running'', beacons_sent = None\<rparr>, [s])
      else
        let s1 = s\<lparr>lora_beacon_active := False\<rparr>;  \<comment> \<open>then \<open>time.sleep(1)\<close>\<close>
            s2 = s1\<lparr>lora_echo_active := True\<rparr>      \<comment> \<open>then the echo thread is started\<close>
        in (\<lparr>success = True, message = ''Echo mode started'', beacons_sent = None\<rparr>,
            [s1, s2]))"

definition lora_echo_stop :: "mode_state \<Rightarrow> mode_reply \<times> mode_state list" where
  "lora_echo_stop s =
     (let s1 = s\<lparr>lora_echo_active := False\<rparr>
      in (\<lparr>success = True, message = ''Echo mode stopping...'', beacons_sent = None\<rparr>, [s1]))"


datatype mode_op = StartBeacon "string option" | StopBeacon | StartEcho | StopEcho

fun handle :: "mode_op \<Rightarrow> mode_state \<Rightarrow> mode_reply \<times> mode_state list" where
  "handle (StartBeacon req) s = lora_beacon_start req s"
| "handle StopBeacon s = lora_beacon_stop s"
| "handle StartEcho s = lora_echo_start s"
| "handle StopEcho s = lora_echo_stop s"


fun final :: "mode_state \<Rightarrow> mode_op list \<Rightarrow> mode_state" where
  "final s [] = s"
| "final s (op # ops) = final (last (snd (handle op s))) ops"


section \<open>Line-mode radio module on the serial port (pi\_responder.py, laptop\_controller.py)\<close>

text \<open>
  Text is ASCII: a \<open>string\<close> stands for a Python \<open>str\<close> and for the bytes it encodes
  to. \<open>encode\<close> is \<open>str.encode()\<close>, \<open>hex\<close> is \<open>bytes.hex()\<close>, \<open>lower\<close> is
  \<open>str.lower()\<close>, \<open>strip\<close> is \<open>str.strip()\<close> and \<open>contains sub s\<close> is Python's
  \<open>sub in s\<close>.
\<close>

type_synonym byte = "8 word"

definition encode :: "string \<Rightarrow> byte list" where
  "encode s = map of_char s"

definition hex_digit :: "nat \<Rightarrow> char" where
  "hex_digit d = ''0123456789abcdef'' ! d"

definition hex :: "byte list \<Rightarrow> string" where
  "hex bs = concat (map (\<lambda>b. [hex_digit (unat b div 16), hex_digit (unat b mod 16)]) bs)"





fun contains :: "string \<Rightarrow> string \<Rightarrow> bool" where
  "contains sub [] = (sub = [])"
| "contains sub (c # cs) = (take (length sub) (c # cs) = sub \<or> contains sub cs)"

















section \<open>Register-mode transport (lora\_test.py, class LoRaNode)\<close>

text \<open>
  \<open>send_packet\<close> accepts a \<open>str\<close> or a bytes-like value. The radio object \<open>self.lora\<close>
  is \<open>None\<close> in simulation mode. Of the hardware the model keeps the payloads handed to
  \<open>write_payload\<close> (oldest first), whether the chip raises the \<open>tx_done\<close> flag before
  the five-second deadline, and whether a driver call raises.
\<close>

datatype payload = Str string | Raw "byte list"

record radio =
  fifo :: "byte list list"
  tx_done :: bool
  faulty :: bool

definition bytes_of :: "payload \<Rightarrow> byte list" where
  "bytes_of d = (case d of Str s \<Rightarrow> encode s | Raw b \<Rightarrow> b)"

definition send_packet :: "payload \<Rightarrow> radio option \<Rightarrow> bool \<times> radio option" where
  "send_packet d lora =
     (case lora of
        None \<Rightarrow> (True, None)
      | Some r \<Rightarrow>
          if faulty r then (False, Some r)
          else
            let payload = take 255 (bytes_of d)
            in (tx_done r, Some (r\<lparr>fifo := fifo r @ [payload]\<rparr>)))"

section \<open>Ping session (lora\_test.py, class LoRaPing)\<close>

text \<open>
  Times and signal strengths are Python floats; the model computes with exact reals.
  \<open>None\<close> in \<open>rtt_min\<close> and \<open>rssi_min\<close> is \<open>float('inf')\<close>, in \<open>rssi_max\<close> it is
  \<open>float('-inf')\<close>.
\<close>

record ping_stats =
  sent :: nat
  received :: nat
  lost :: nat
  rtt_min :: "real option"
  rtt_max :: real
  rtt_avg :: real
  rtt_total :: real
  rssi_min :: "real option"
  rssi_max :: "real option"
  rssi_avg :: real
  rssi_total :: real











section \<open>File transfer (lora\_test.py, class LoRaFileTransfer)\<close>

text \<open>
  A frame is the dictionary that \<open>json.dumps\<close> serialises on one side and
  \<open>json.loads\<close> rebuilds on the other; the model keeps the keys the program reads or
  writes, each absent (\<open>None\<close>) or present with a value of the expected JSON type.
  \<open>p_data\<close> holds the chunk after \<open>base64.b64decode\<close> (absent also when decoding
  raises). \<open>hashlib.md5(...).hexdigest()\<close> is a parameter \<open>md5\<close> of the model.
\<close>

record packet =
  p_type :: "string option"
  p_from :: "string option"
  p_to :: "string option"
  p_filename :: "string option"
  p_size :: "nat option"
  p_chunks :: "int option"
  p_hash :: "string option"
  p_chunk :: "int option"
  p_total :: "int option"
  p_data :: "byte list option"

definition file_info_packet :: "string \<Rightarrow> string \<Rightarrow> string \<Rightarrow> nat \<Rightarrow> nat \<Rightarrow> string \<Rightarrow> packet" where
  "file_info_packet node_id dest fname filesize num_chunks file_hash =
     \<lparr>p_type = Some ''FILE_INFO'', p_from = Some node_id, p_to = Some dest,
      p_filename = Some fname, p_size = Some filesize, p_chunks = Some (int num_chunks),
      p_hash = Some file_hash, p_chunk = None, p_total = None, p_data = None\<rparr>"

definition file_data_packet :: "nat \<Rightarrow> nat \<Rightarrow> byte list \<Rightarrow> packet" where
  "file_data_packet chunk_num num_chunks chunk_data =
     \<lparr>p_type = Some ''FILE_DATA'', p_from = None, p_to = None, p_filename = None,
      p_size = None, p_chunks = None, p_hash = None, p_chunk = Some (int chunk_num),
      p_total = Some (int num_chunks), p_data = Some chunk_data\<rparr>"

definition file_complete_packet :: "string \<Rightarrow> string \<Rightarrow> packet" where
  "file_complete_packet fname file_hash =
     \<lparr>p_type = Some ''FILE_COMPLETE'', p_from = None, p_to = None, p_filename = Some fname,
      p_size = None, p_chunks = None, p_hash = Some file_hash, p_chunk = None,
      p_total = None, p_data = None\<rparr>"

definition CHUNK_SIZE :: nat where
  "CHUNK_SIZE = 200"

text \<open>
  The chunk loop of \<open>send_file\<close>: \<open>for chunk_num in range(num_chunks)\<close>, each pass
  reading the next \<open>chunk_size\<close> bytes of the open file. The last argument is the
  unread rest of the file.
\<close>

fun send_chunks :: "nat \<Rightarrow> nat \<Rightarrow> nat list \<Rightarrow> byte list \<Rightarrow> packet list" where
  "send_chunks chunk_size num_chunks [] f = []"
| "send_chunks chunk_size num_chunks (chunk_num # rest) f =
     file_data_packet chunk_num num_chunks (take chunk_size f)
       # send_chunks chunk_size num_chunks rest (drop chunk_size f)"

text \<open>
  The sender's view of the link: whether \<open>send_packet\<close> succeeds on the FILE\_INFO
  frame, and what \<open>receive_packet(timeout=5.0)\<close> returns afterwards.
\<close>

record link =
  info_sent :: bool
  ack :: "string option"

datatype py_error = ZeroDivisionError

text \<open>
  \<open>send_file\<close> returns its boolean together with the frames handed to \<open>send_packet\<close>,
  in order. The file is \<open>None\<close> when the path does not exist. A chunk whose
  \<open>send_packet\<close> fails is reported and the loop goes on, so the frames handed over do
  not depend on those results.
\<close>

definition send_file ::
  "(byte list \<Rightarrow> string) \<Rightarrow> nat \<Rightarrow> string \<Rightarrow> string \<Rightarrow> string \<Rightarrow> byte list option \<Rightarrow> link
     \<Rightarrow> py_error + bool \<times> packet list" where
  "send_file md5 chunk_size node_id dest fname file lnk =
     (case file of
        None \<Rightarrow> Inr (False, [])
      | Some content \<Rightarrow>
          let filesize = length content;
              file_hash = md5 content
          in if chunk_size = 0 then Inl ZeroDivisionError
             else
               let num_chunks = (filesize + chunk_size - 1) div chunk_size;
                   info_packet = file_info_packet node_id dest fname filesize num_chunks file_hash
               in if \<not> info_sent lnk then Inr (False, [info_packet])
                  else if ack lnk = None \<or> ack lnk = Some [] then Inr (False, [info_packet])
                  else Inr (True,
                         info_packet
                           # send_chunks chunk_size num_chunks [0..<num_chunks] content
                           @ [file_complete_packet fname file_hash]))"

text \<open>
  What one \<open>receive_packet(timeout=10.0)\<close> of the receiver yields: nothing
  (\<open>not data\<close>), text that \<open>json.loads\<close> rejects or that is no dictionary, or a frame.
\<close>

datatype rx = Silence | Garbage | Frame packet

text \<open>
  The receiver's variables \<open>file_info\<close> and \<open>chunks\<close>, the files it has written (by
  name under \<open>save_dir\<close>), the number of ACK frames it has sent and the verdict it has
  printed (\<open>Some True\<close>: hash verified, \<open>Some False\<close>: hash mismatch).
\<close>

record recv_state =
  file_info :: "packet option"
  chunks :: "int \<rightharpoonup> byte list"
  disk :: "string \<rightharpoonup> byte list"
  acks :: nat
  verdict :: "bool option"

definition recv_init :: recv_state where
  "recv_init =
     \<lparr>file_info = None, chunks = Map.empty, disk = Map.empty, acks = 0, verdict = None\<rparr>"

text \<open>
  \<open>for i in range(file_info['chunks']): if i in chunks: f.write(chunks[i])\<close>
\<close>

definition assemble :: "int \<Rightarrow> (int \<rightharpoonup> byte list) \<Rightarrow> byte list" where
  "assemble n cs =
     concat (map (\<lambda>i. case cs (int i) of None \<Rightarrow> [] | Some c \<Rightarrow> c) [0..<nat n])"

text \<open>
  One pass of the \<open>while True\<close> loop of \<open>receive_file\<close>; the boolean is \<open>True\<close> when
  the pass ends in \<open>break\<close>. Every exception inside the \<open>try\<close> is caught and the loop
  goes on, keeping the assignments made before it: a FILE\_INFO frame lacking a printed
  key is remembered without resetting \<open>chunks\<close> or sending the ACK; a FILE\_DATA frame
  lacking \<open>chunk\<close> or decodable \<open>data\<close> stores nothing; on FILE\_COMPLETE a missing
  \<open>filename\<close> stops before the file is opened, a missing \<open>chunks\<close> leaves the file
  opened and empty, and a missing \<open>hash\<close> leaves the file written with no verdict and
  no \<open>break\<close>.
\<close>

definition receive_step :: "(byte list \<Rightarrow> string) \<Rightarrow> recv_state \<Rightarrow> rx \<Rightarrow> recv_state \<times> bool" where
  "receive_step md5 s ev =
     (case ev of
        Silence \<Rightarrow> (s, False)
      | Garbage \<Rightarrow> (s, False)
      | Frame packet \<Rightarrow>
          if p_type packet = Some ''FILE_INFO'' then
            (let s1 = s\<lparr>file_info := Some packet\<rparr>
             in if p_filename packet = None \<or> p_size packet = None \<or> p_chunks packet = None
                then (s1, False)
                else (s1\<lparr>chunks := Map.empty, acks := acks s1 + 1\<rparr>, False))
          else if p_type packet = Some ''FILE_DATA'' \<and> file_info s \<noteq> None then
            (case p_chunk packet of
               None \<Rightarrow> (s, False)
             | Some chunk_num \<Rightarrow>
                 (case p_data packet of
                    None \<Rightarrow> (s, False)
                  | Some chunk_data \<Rightarrow>
                      (s\<lparr>chunks := (chunks s)(chunk_num \<mapsto> chunk_data)\<rparr>, False)))
          else if p_type packet = Some ''FILE_COMPLETE'' \<and> file_info s \<noteq> None then
            (case file_info s of
               None \<Rightarrow> (s, False)
             | Some info \<Rightarrow>
                 (case p_filename info of
                    None \<Rightarrow> (s, False)
                  | Some fname \<Rightarrow>
                      (case p_chunks info of
                         None \<Rightarrow> (s\<lparr>disk := (disk s)(fname \<mapsto> [])\<rparr>, False)
                       | Some n \<Rightarrow>
                           (let content = assemble n (chunks s);
                                s1 = s\<lparr>disk := (disk s)(fname \<mapsto> content)\<rparr>;
                                received_hash = md5 content
                            in case p_hash packet of
                                 None \<Rightarrow> (s1, False)
                               | Some h \<Rightarrow> (s1\<lparr>verdict := Some (received_hash = h)\<rparr>, True)))))
          else (s, False))"

text \<open>
  The loop over the frames that arrive. The result \<open>(s, True)\<close> is the state at the
  \<open>break\<close>; \<open>(s, False)\<close> means the input given is used up and the loop is still
  listening.
\<close>

fun receive_loop :: "(byte list \<Rightarrow> string) \<Rightarrow> recv_state \<Rightarrow> rx list \<Rightarrow> recv_state \<times> bool" where
  "receive_loop md5 s [] = (s, False)"
| "receive_loop md5 s (ev # evs) =
     (case receive_step md5 s ev of
        (s', True) \<Rightarrow> (s', True)
      | (s', False) \<Rightarrow> receive_loop md5 s' evs)"

definition receive_file :: "(byte list \<Rightarrow> string) \<Rightarrow> rx list \<Rightarrow> recv_state \<times> bool" where
  "receive_file md5 evs = receive_loop md5 recv_init evs"

definition is_file_info :: "rx \<Rightarrow> bool" where
  "is_file_info ev = (case ev of Frame p \<Rightarrow> p_type p = Some ''FILE_INFO'' | _ \<Rightarrow> False)"

text \<open>
  The chunk map after the valid FILE\_DATA frames \<open>ds\<close> have been stored one by one
  into \<open>m\<close>: \<open>chunks[chunk_num] = chunk_data\<close> for each frame in turn.
\<close>

fun store_all :: "(int \<rightharpoonup> byte list) \<Rightarrow> packet list \<Rightarrow> (int \<rightharpoonup> byte list)" where
  "store_all m [] = m"
| "store_all m (d # ds) =
     store_all (case (p_chunk d, p_data d) of
                  (Some chunk_num, Some chunk_data) \<Rightarrow> m(chunk_num \<mapsto> chunk_data)
                | _ \<Rightarrow> m) ds"

text \<open>
  The last frame among \<open>ds\<close> that stores a chunk under index \<open>j\<close>.
\<close>

definition last_stored :: "int \<Rightarrow> packet list \<Rightarrow> packet option" where
  "last_stored j ds = find (\<lambda>d. p_chunk d = Some j \<and> p_data d \<noteq> None) (rev ds)"

section \<open>Spectrum scan (lora\_test.py, spectrum\_scan)\<close>






section \<open>Mode scheduler: proofs\<close>








text \<open>
  Claim C8. A start\_beacon request while the beacon flag is set answers success with
  the message ``Already running'' and assigns none of the globals: the beacon counter
  and both flags are as before. A start\_echo request while the echo flag is set
  behaves the same way.
\<close>

theorem start_active_mode_noop:
  "(lora_beacon_active s \<longrightarrow>
      fst (lora_beacon_start req s) =
        \<lparr>success = True, message = ''Already running'', beacons_sent = None\<rparr>
      \<and> snd (lora_beacon_start req s) = [s]
      \<and> final s [StartBeacon req] = s)
   \<and> (lora_echo_active s \<longrightarrow>
      fst (lora_echo_start s) =
        \<lparr>success = True, message = ''Already running'', beacons_sent = None\<rparr>
      \<and> snd (lora_echo_start s) = [s]
      \<and> final s [StartEcho] = s)"
  by (simp add: lora_beacon_start_def lora_echo_start_def)

theorem start_active_mode_noop_witness:
  "lora_beacon_active \<lparr>lora_beacon_active = True, lora_echo_active = False, beacon_count = 7\<rparr>
   \<and> lora_beacon_start (Some ''2'')
        \<lparr>lora_beacon_active = True, lora_echo_active = False, beacon_count = 7\<rparr> =
       (\<lparr>success = True, message = ''Already running'', beacons_sent = None\<rparr>,
        [\<lparr>lora_beacon_active = True, lora_echo_active = False, beacon_count = 7\<rparr>])
   \<and> lora_echo_active \<lparr>lora_beacon_active = False, lora_echo_active = True, beacon_count = 7\<rparr>
   \<and> lora_echo_start
        \<lparr>lora_beacon_active = False, lora_echo_active = True, beacon_count = 7\<rparr> =
       (\<lparr>success = True, message = ''Already running'', beacons_sent = None\<rparr>,
        [\<lparr>lora_beacon_active = False, lora_echo_active = True, beacon_count = 7\<rparr>])"
  using start_active_mode_noop
          [of "\<lparr>lora_beacon_active = True, lora_echo_active = False, beacon_count = 7\<rparr>"
              "Some ''2''"]
        start_active_mode_noop
          [of "\<lparr>lora_beacon_active = False, lora_echo_active = True, beacon_count = 7\<rparr>"
              None]
  by (simp add: prod_eq_iff)

section \<open>Line-mode send: proofs\<close>

lemma contains_iff: "contains sub s \<longleftrightarrow> (\<exists>pre post. s = pre @ sub @ post)"
proof (induction s)
  case Nil
  then show ?case by auto
next
  case (Cons c cs)
  show ?case
  proof
    assume "contains sub (c # cs)"
    then consider "take (length sub) (c # cs) = sub" | "contains sub cs" by auto
    then show "\<exists>pre post. c # cs = pre @ sub @ post"
    proof cases
      case 1
      then have "c # cs = [] @ sub @ drop (length sub) (c # cs)"
        by (metis append_Nil append_take_drop_id)
      then show ?thesis by blast
    next
      case 2
      with Cons.IH obtain pre post where "cs = pre @ sub @ post" by auto
      then have "c # cs = (c # pre) @ sub @ post" by simp
      then show ?thesis by blast
    qed
  next
    assume "\<exists>pre post. c # cs = pre @ sub @ post"
    then obtain pre post where eq: "c # cs = pre @ sub @ post" by auto
    show "contains sub (c # cs)"
    proof (cases pre)
      case Nil
      with eq have "take (length sub) (c # cs) = sub" by simp
      then show ?thesis by simp
    next
      case (Cons p ps)
      with eq have "cs = ps @ sub @ post" by simp
      with Cons.IH have "contains sub cs" by blast
      then show ?thesis by simp
    qed
  qed
qed









section \<open>Register-mode transport: proofs\<close>

text \<open>
  Claim C6, as the code has it. On a radio whose driver does not raise, \<open>send_packet\<close>
  hands the first 255 bytes of the encoded payload to the chip: what is written never
  exceeds 255 bytes, and it is the whole payload exactly when the payload is at most
  255 bytes long; a longer payload loses its tail.
\<close>

theorem send_packet_writes_prefix:
  "\<not> faulty r \<Longrightarrow>
   send_packet d (Some r) = (tx_done r, Some (r\<lparr>fifo := fifo r @ [take 255 (bytes_of d)]\<rparr>))
   \<and> length (take 255 (bytes_of d)) \<le> 255
   \<and> (take 255 (bytes_of d) = bytes_of d) = (length (bytes_of d) \<le> 255)"
  by (auto simp: send_packet_def Let_def)

theorem send_packet_writes_prefix_witness:
  "\<not> faulty \<lparr>fifo = [], tx_done = True, faulty = False\<rparr>
   \<and> send_packet (Str ''PING'') (Some \<lparr>fifo = [], tx_done = True, faulty = False\<rparr>) =
       (True, Some \<lparr>fifo = [[80, 73, 78, 71]], tx_done = True, faulty = False\<rparr>)"
  using send_packet_writes_prefix [of "\<lparr>fifo = [], tx_done = True, faulty = False\<rparr>" "Str ''PING''"]
  by (simp add: bytes_of_def encode_def)

text \<open>
  The claim as the specification states it fails for a payload of 256 bytes: 255 bytes
  reach the chip, the last byte is dropped, and \<open>send_packet\<close> still returns \<open>True\<close>.
\<close>

theorem send_packet_drops_tail:
  "send_packet (Raw (replicate 256 0)) (Some \<lparr>fifo = [], tx_done = True, faulty = False\<rparr>) =
     (True, Some \<lparr>fifo = [replicate 255 0], tx_done = True, faulty = False\<rparr>)
   \<and> bytes_of (Raw (replicate 256 0)) = replicate 256 0
   \<and> replicate 255 (0 :: byte) \<noteq> replicate 256 0"
  by (simp add: send_packet_def bytes_of_def Let_def replicate_eq_replicate)

section \<open>Ping session: proofs\<close>








section \<open>File transfer: proofs\<close>

lemma receive_step_before_info:
  "file_info s = None \<Longrightarrow> \<not> is_file_info ev \<Longrightarrow> receive_step md5 s ev = (s, False)"
  by (cases ev) (simp_all add: receive_step_def is_file_info_def)

lemma receive_loop_before_info:
  "file_info s = None \<Longrightarrow> \<forall>ev \<in> set evs. \<not> is_file_info ev \<Longrightarrow>
   receive_loop md5 s evs = (s, False)"
  by (induction evs) (simp_all add: receive_step_before_info)

lemma receive_step_keeps_info:
  "file_info s \<noteq> None \<Longrightarrow> file_info (fst (receive_step md5 s ev)) \<noteq> None"
  by (cases ev) (auto simp: receive_step_def Let_def split: option.splits)

text \<open>
  Claim C10. As long as no FILE\_INFO frame has arrived the receiver stores no chunk,
  writes no file, sends no ACK and prints no verdict: FILE\_DATA and FILE\_COMPLETE
  frames (and silence or undecodable text) leave its state as it was at the start and
  the loop keeps listening. ``No FILE\_INFO seen implies an empty chunk map and no file
  written'' is kept by every pass of the loop, whatever arrives.
\<close>

theorem nothing_stored_before_file_info:
  "((\<forall>ev \<in> set evs. \<not> is_file_info ev) \<longrightarrow> receive_file md5 evs = (recv_init, False))
   \<and> ((file_info s = None \<longrightarrow> chunks s = Map.empty \<and> disk s = Map.empty) \<longrightarrow>
      (file_info (fst (receive_step md5 s ev)) = None \<longrightarrow>
         chunks (fst (receive_step md5 s ev)) = Map.empty
         \<and> disk (fst (receive_step md5 s ev)) = Map.empty))"
proof (intro conjI impI)
  assume "\<forall>ev \<in> set evs. \<not> is_file_info ev"
  moreover have "file_info recv_init = None" by (simp add: recv_init_def)
  ultimately show "receive_file md5 evs = (recv_init, False)"
    unfolding receive_file_def by (simp add: receive_loop_before_info)
next
  assume inv: "file_info s = None \<longrightarrow> chunks s = Map.empty \<and> disk s = Map.empty"
    and after: "file_info (fst (receive_step md5 s ev)) = None"
  from after receive_step_keeps_info [of s md5 ev] have none: "file_info s = None" by blast
  have "\<not> is_file_info ev"
  proof
    assume "is_file_info ev"
    then have "file_info (fst (receive_step md5 s ev)) \<noteq> None"
      by (cases ev) (auto simp: is_file_info_def receive_step_def Let_def)
    with after show False by simp
  qed
  with none have "receive_step md5 s ev = (s, False)" by (rule receive_step_before_info)
  with inv none show "chunks (fst (receive_step md5 s ev)) = Map.empty" by simp
  from \<open>receive_step md5 s ev = (s, False)\<close> inv none
  show "disk (fst (receive_step md5 s ev)) = Map.empty" by simp
qed

theorem nothing_stored_before_file_info_witness:
  "\<not> is_file_info (Frame (file_data_packet 0 1 [7]))
   \<and> \<not> is_file_info (Frame (file_complete_packet ''a.bin'' (hex [7])))
   \<and> receive_file hex
        [Frame (file_data_packet 0 1 [7]), Silence, Garbage,
         Frame (file_complete_packet ''a.bin'' (hex [7]))] = (recv_init, False)
   \<and> file_info recv_init = None
   \<and> chunks (fst (receive_step hex recv_init (Frame (file_data_packet 0 1 [7])))) = Map.empty
   \<and> disk (fst (receive_step hex recv_init (Frame (file_data_packet 0 1 [7])))) = Map.empty"
  using nothing_stored_before_file_info
          [of "[Frame (file_data_packet 0 1 [7]), Silence, Garbage,
                Frame (file_complete_packet ''a.bin'' (hex [7]))]"
              hex recv_init "Frame (file_data_packet 0 1 [7])"]
  by (simp add: is_file_info_def file_data_packet_def file_complete_packet_def recv_init_def
        receive_step_def)

lemma upt_0_2: "[0..<2::nat] = [0, 1]" by code_simp

lemma upt_0_3: "[0..<3::nat] = [0, 1, 2]" by code_simp

lemma upt_0_5: "[0..<5::nat] = [0, 1, 2, 3, 4]" by code_simp

lemma send_chunks_from:
  "send_chunks cs n [k..<k + m] (drop (k * cs) content) =
     map (\<lambda>i. file_data_packet i n (take cs (drop (i * cs) content))) [k..<k + m]"
proof (induction m arbitrary: k)
  case 0
  then show ?case by simp
next
  case (Suc m)
  have "[k..<k + Suc m] = k # [Suc k..<Suc k + m]" by (simp add: upt_conv_Cons)
  moreover have "drop cs (drop (k * cs) content) = drop (Suc k * cs) content"
    by (simp add: add.commute)
  ultimately show ?case using Suc.IH [of "Suc k"] by simp
qed

lemma send_chunks_all:
  "send_chunks cs n [0..<m] content =
     map (\<lambda>i. file_data_packet i n (take cs (drop (i * cs) content))) [0..<m]"
  using send_chunks_from [of cs n 0 m content] by simp

lemma send_file_frames:
  assumes "send_file md5 cs node_id dest fname (Some content) lnk = Inr (True, info # dfs @ [fin])"
  shows "0 < cs"
    and "info = file_info_packet node_id dest fname (length content)
                  ((length content + cs - 1) div cs) (md5 content)"
    and "dfs = map (\<lambda>i. file_data_packet i ((length content + cs - 1) div cs)
                           (take cs (drop (i * cs) content)))
                   [0..<(length content + cs - 1) div cs]"
    and "fin = file_complete_packet fname (md5 content)"
  using assms
  by (auto simp: send_file_def Let_def send_chunks_all split: if_splits)

text \<open>
  Claim C7. When the FILE\_INFO frame goes out and an acknowledgement comes back,
  \<open>send_file\<close> with the default chunk size of 200 on a file of 1000 bytes hands over,
  after FILE\_INFO, exactly five FILE\_DATA frames with the chunk indices 0, 1, 2, 3, 4
  in this order, each with total 5 and the next 200 bytes of the file, and then one
  FILE\_COMPLETE frame whose hash is the digest of the 1000 bytes.
\<close>

theorem thousand_bytes_five_chunks:
  assumes "length content = 1000" and "info_sent lnk" and "ack lnk = Some a" and "a \<noteq> []"
  shows "send_file md5 CHUNK_SIZE node_id dest fname (Some content) lnk =
     Inr (True,
       [file_info_packet node_id dest fname 1000 5 (md5 content),
        file_data_packet 0 5 (take 200 content),
        file_data_packet 1 5 (take 200 (drop 200 content)),
        file_data_packet 2 5 (take 200 (drop 400 content)),
        file_data_packet 3 5 (take 200 (drop 600 content)),
        file_data_packet 4 5 (take 200 (drop 800 content)),
        file_complete_packet fname (md5 content)])"
  using assms
  by (simp add: send_file_def CHUNK_SIZE_def Let_def upt_0_5)

theorem thousand_bytes_five_chunks_witness:
  "length (replicate 1000 (0 :: byte)) = 1000
   \<and> info_sent \<lparr>info_sent = True, ack = Some ''ACK''\<rparr>
   \<and> send_file hex CHUNK_SIZE ''NODE_A'' ''NODE_B'' ''f.bin'' (Some (replicate 1000 0))
        \<lparr>info_sent = True, ack = Some ''ACK''\<rparr> =
     Inr (True,
       [file_info_packet ''NODE_A'' ''NODE_B'' ''f.bin'' 1000 5 (hex (replicate 1000 0)),
        file_data_packet 0 5 (replicate 200 0),
        file_data_packet 1 5 (replicate 200 0),
        file_data_packet 2 5 (replicate 200 0),
        file_data_packet 3 5 (replicate 200 0),
        file_data_packet 4 5 (replicate 200 0),
        file_complete_packet ''f.bin'' (hex (replicate 1000 0))])"
  using thousand_bytes_five_chunks
          [of "replicate 1000 0" "\<lparr>info_sent = True, ack = Some ''ACK''\<rparr>" "''ACK''"
              hex "''NODE_A''" "''NODE_B''" "''f.bin''"]
  by simp

lemma pieces_concat:
  "concat (map (\<lambda>i. take cs (drop (i * cs) content)) [0..<k]) = take (k * cs) content"
proof (induction k)
  case 0
  then show ?case by simp
next
  case (Suc k)
  have "take (k * cs) content @ take cs (drop (k * cs) content) = take (k * cs + cs) content"
    by (simp add: take_add)
  with Suc show ?case by (simp add: add.commute)
qed

lemma num_chunks_cover:
  assumes "0 < cs"
  shows "(a::nat) \<le> ((a + cs - 1) div cs) * cs"
proof -
  let ?a = "a + cs - 1"
  have "?a = ?a div cs * cs + ?a mod cs" by simp
  moreover have "?a mod cs < cs" using assms by simp
  ultimately show ?thesis using assms by linarith
qed

lemma num_chunks_tight:
  assumes "0 < cs" and "i < ((a::nat) + cs - 1) div cs"
  shows "i * cs < a"
proof -
  let ?a = "a + cs - 1"
  from assms(2) have "Suc i \<le> ?a div cs" by simp
  then have "Suc i * cs \<le> ?a div cs * cs" by (rule mult_le_mono1)
  also have "\<dots> \<le> ?a" by simp
  finally have "i * cs + cs \<le> a + cs - 1" by simp
  with assms(1) show ?thesis by linarith
qed

lemma num_chunks_ceiling:
  assumes "0 < cs"
  shows "int ((a + cs - 1) div cs) = \<lceil>real a / real cs\<rceil>"
proof -
  let ?q = "(a + cs - 1) div cs"
  have "real a \<le> real (?q * cs)" using num_chunks_cover [OF assms, of a] by (simp only: of_nat_le_iff)
  then have up: "real a / real cs \<le> real ?q" using assms by (simp add: pos_divide_le_eq)
  have lo: "real ?q - 1 < real a / real cs"
  proof (cases "?q")
    case 0
    have "(0::real) \<le> real a / real cs" by simp
    then have "- 1 < real a / real cs" by linarith
    with 0 show ?thesis by simp
  next
    case (Suc j)
    then have "j < ?q" by simp
    with assms have "j * cs < a" by (rule num_chunks_tight)
    then have "real (j * cs) < real a" by (simp only: of_nat_less_iff)
    then have "real j < real a / real cs" using assms by (simp add: pos_less_divide_eq)
    with Suc show ?thesis by simp
  qed
  have "\<lceil>real a / real cs\<rceil> = int ?q"
    by (rule ceiling_unique) (use up lo in simp_all)
  then show ?thesis by simp
qed

lemma receive_info_first:
  "receive_loop md5 recv_init
     (Frame (file_info_packet node_id dest fname filesize n h) # rest) =
   receive_loop md5
     (recv_init\<lparr>file_info := Some (file_info_packet node_id dest fname filesize n h),
                acks := 1\<rparr>) rest"
  by (simp add: receive_step_def file_info_packet_def recv_init_def Let_def)

lemma receive_loop_data:
  assumes "file_info s \<noteq> None"
    and "\<forall>d \<in> set ds. p_type d = Some ''FILE_DATA''"
  shows "receive_loop md5 s (map Frame ds @ rest) =
           receive_loop md5 (s\<lparr>chunks := store_all (chunks s) ds\<rparr>) rest"
  using assms
proof (induction ds arbitrary: s)
  case Nil
  then show ?case by simp
next
  case (Cons d ds)
  let ?m = "case (p_chunk d, p_data d) of
                  (Some chunk_num, Some chunk_data) \<Rightarrow> (chunks s)(chunk_num \<mapsto> chunk_data)
                | _ \<Rightarrow> chunks s"
  from Cons.prems have step: "receive_step md5 s (Frame d) = (s\<lparr>chunks := ?m\<rparr>, False)"
    by (auto simp: receive_step_def split: option.splits)
  have "file_info (s\<lparr>chunks := ?m\<rparr>) \<noteq> None" using Cons.prems(1) by simp
  from Cons.IH [OF this] Cons.prems(2) step show ?case by simp
qed

lemma receive_complete:
  assumes "file_info s = Some info" "p_filename info = Some fname" "p_chunks info = Some n"
  shows "receive_loop md5 s [Frame (file_complete_packet fname' h)] =
           (s\<lparr>disk := (disk s)(fname \<mapsto> assemble n (chunks s)),
              verdict := Some (md5 (assemble n (chunks s)) = h)\<rparr>, True)"
  using assms by (simp add: receive_step_def file_complete_packet_def Let_def)

lemma assemble_pointwise:
  assumes "\<forall>i < n. cm (int i) = (if present i then Some (piece i) else None)"
  shows "assemble (int n) cm = concat (map (\<lambda>i. if present i then piece i else []) [0..<n])"
proof -
  have "map (\<lambda>i. case cm (int i) of None \<Rightarrow> [] | Some c \<Rightarrow> c) [0..<n] =
        map (\<lambda>i. if present i then piece i else []) [0..<n]"
    using assms by (intro map_cong) auto
  then have eq: "concat (map (\<lambda>i. case cm (int i) of None \<Rightarrow> [] | Some c \<Rightarrow> c) [0..<n]) =
        concat (map (\<lambda>i. if present i then piece i else []) [0..<n])"
    by (rule arg_cong)
  have "assemble (int n) cm =
        concat (map (\<lambda>i. case cm (int i) of None \<Rightarrow> [] | Some c \<Rightarrow> c) [0..<n])"
    by (simp add: assemble_def)
  also note eq
  finally show ?thesis .
qed

lemma written_complete:
  assumes "0 < cs" and n: "n = (length content + cs - 1) div cs"
    and piece: "\<And>i. piece i = take cs (drop (i * cs) content)"
    and all: "\<forall>i < n. present i"
  shows "concat (map (\<lambda>i. if present i then piece i else []) [0..<n]) = content"
proof -
  have "map (\<lambda>i. if present i then piece i else []) [0..<n] =
        map (\<lambda>i. take cs (drop (i * cs) content)) [0..<n]"
    using all piece by (intro map_cong) auto
  then have "concat (map (\<lambda>i. if present i then piece i else []) [0..<n]) =
        concat (map (\<lambda>i. take cs (drop (i * cs) content)) [0..<n])"
    by (rule arg_cong)
  then have "concat (map (\<lambda>i. if present i then piece i else []) [0..<n]) = take (n * cs) content"
    by (simp only: pieces_concat)
  moreover have "length content \<le> n * cs" unfolding n using assms(1) by (rule num_chunks_cover)
  ultimately show ?thesis by simp
qed

lemma written_short:
  assumes cs: "0 < cs" and n: "n = (length content + cs - 1) div cs"
    and piece: "\<And>i. piece i = take cs (drop (i * cs) content)"
    and gap: "i0 < n" "\<not> present i0"
  shows "length (concat (map (\<lambda>i. if present i then piece i else []) [0..<n])) < length content"
proof -
  let ?g = "\<lambda>i. length (if present i then piece i else [])"
  let ?f = "\<lambda>i. length (piece i)"
  have full: "concat (map (\<lambda>i. if True then piece i else []) [0..<n]) = content"
    using cs n piece by (rule written_complete) simp
  have "length (concat (map (\<lambda>i. if present i then piece i else []) [0..<n])) = sum ?g {0..<n}"
    by (simp add: length_concat comp_def interv_sum_list_conv_sum_set_nat)
  moreover have "length content = sum ?f {0..<n}"
    using arg_cong [OF full, of length]
    by (simp add: length_concat comp_def interv_sum_list_conv_sum_set_nat)
  moreover have "sum ?g {0..<n} < sum ?f {0..<n}"
  proof (rule sum_strict_mono_ex1)
    show "finite {0..<n}" by simp
    show "\<forall>i \<in> {0..<n}. ?g i \<le> ?f i" by simp
    have "i0 * cs < length content" using cs gap(1) unfolding n by (rule num_chunks_tight)
    then have "0 < ?f i0" using cs by (simp add: piece)
    with gap show "\<exists>i \<in> {0..<n}. ?g i < ?f i" by (intro bexI [of _ i0]) simp_all
  qed
  ultimately show ?thesis by simp
qed

lemma store_all_snoc:
  "store_all m (ds @ [d]) =
     (case (p_chunk d, p_data d) of
        (Some chunk_num, Some chunk_data) \<Rightarrow> (store_all m ds)(chunk_num \<mapsto> chunk_data)
      | _ \<Rightarrow> store_all m ds)"
  by (induction ds arbitrary: m) (simp_all split: option.splits)

lemma store_all_last:
  "store_all m ds j = (case last_stored j ds of None \<Rightarrow> m j | Some d \<Rightarrow> p_data d)"
proof (induction ds rule: rev_induct)
  case Nil
  then show ?case by (simp add: last_stored_def)
next
  case (snoc d ds)
  then show ?case
    by (auto simp: store_all_snoc last_stored_def split: option.splits)
qed

lemma store_all_sender:
  assumes "\<forall>d \<in> set ds. \<exists>i. d = file_data_packet i n (piece i)"
  shows "store_all m ds (int i) =
           (if file_data_packet i n (piece i) \<in> set ds then Some (piece i) else m (int i))"
  using assms
proof (induction ds arbitrary: m)
  case Nil
  then show ?case by simp
next
  case (Cons d ds)
  then obtain j where d: "d = file_data_packet j n (piece j)" by auto
  have eq: "file_data_packet i n (piece i) = file_data_packet j n (piece j) \<longleftrightarrow> i = j"
    by (auto simp: file_data_packet_def)
  have st: "store_all m (d # ds) = store_all (m(int j \<mapsto> piece j)) ds"
    using d by (simp add: file_data_packet_def)
  from Cons.prems have "\<forall>d \<in> set ds. \<exists>i. d = file_data_packet i n (piece i)" by simp
  then have IH: "store_all (m(int j \<mapsto> piece j)) ds (int i) =
      (if file_data_packet i n (piece i) \<in> set ds then Some (piece i)
       else (m(int j \<mapsto> piece j)) (int i))"
    by (rule Cons.IH)
  show ?case
  proof (cases "i = j")
    case True
    with st IH d show ?thesis by simp
  next
    case False
    with eq d have "file_data_packet i n (piece i) \<noteq> d" by simp
    with st IH False show ?thesis by simp
  qed
qed

text \<open>
  Claim C4. Let \<open>send_file\<close> run to the end on a file of \<open>N\<close> bytes and hand over
  the FILE\_INFO frame, the FILE\_DATA frames and the FILE\_COMPLETE frame. The
  FILE\_DATA frames number \<open>(N + chunk_size - 1) // chunk_size\<close>, the ceiling of
  \<open>N / chunk_size\<close>. If the receiver gets FILE\_INFO, then FILE\_DATA frames in any
  order and with any repetitions such that for every chunk index the last frame stored
  under it is the sender's (last write wins), then FILE\_COMPLETE, its loop ends, the
  file it has written holds exactly the original bytes and it reports the hash as
  verified.
\<close>

theorem file_round_trip:
  assumes send: "send_file md5 chunk_size node_id dest fname (Some content) lnk
             = Inr (True, info # dfs @ [fin])"
    and data: "\<forall>d \<in> set deliveries. p_type d = Some ''FILE_DATA''"
    and last: "\<forall>k < length dfs. last_stored (int k) deliveries = Some (dfs ! k)"
  shows "length dfs = (length content + chunk_size - 1) div chunk_size
    \<and> int (length dfs) = \<lceil>real (length content) / real chunk_size\<rceil>
    \<and> snd (receive_file md5 (Frame info # map Frame deliveries @ [Frame fin]))
    \<and> disk (fst (receive_file md5 (Frame info # map Frame deliveries @ [Frame fin]))) fname
        = Some content
    \<and> verdict (fst (receive_file md5 (Frame info # map Frame deliveries @ [Frame fin])))
        = Some True"
proof -
  define n where "n = (length content + chunk_size - 1) div chunk_size"
  define piece where "piece = (\<lambda>i. take chunk_size (drop (i * chunk_size) content))"
  have pc: "\<And>i. piece i = take chunk_size (drop (i * chunk_size) content)"
    by (simp add: piece_def)
  note fr = send_file_frames [OF send]
  have dfs: "dfs = map (\<lambda>i. file_data_packet i n (piece i)) [0..<n]"
    using fr(3) by (simp add: n_def piece_def)
  then have len: "length dfs = n" by simp
  have info: "info = file_info_packet node_id dest fname (length content) n (md5 content)"
    using fr(2) by (simp add: n_def)
  let ?s1 = "recv_init\<lparr>file_info := Some info, acks := 1\<rparr>"
  let ?s2 = "?s1\<lparr>chunks := store_all (chunks ?s1) deliveries\<rparr>"
  have "\<forall>i < n. chunks ?s2 (int i) = (if True then Some (piece i) else None)"
  proof (intro allI impI)
    fix i assume i: "i < n"
    with last len have "last_stored (int i) deliveries = Some (dfs ! i)" by simp
    moreover from i dfs have "dfs ! i = file_data_packet i n (piece i)" by simp
    ultimately have "store_all Map.empty deliveries (int i) = Some (piece i)"
      by (simp add: store_all_last file_data_packet_def)
    then show "chunks ?s2 (int i) = (if True then Some (piece i) else None)"
      by (simp add: recv_init_def)
  qed
  then have "assemble (int n) (chunks ?s2)
      = concat (map (\<lambda>i. if True then piece i else []) [0..<n])"
    by (rule assemble_pointwise)
  also have "\<dots> = content"
    by (rule written_complete [OF fr(1) n_def pc]) simp
  finally have whole: "assemble (int n) (chunks ?s2) = content" .
  have "receive_file md5 (Frame info # map Frame deliveries @ [Frame fin]) =
          receive_loop md5 ?s1 (map Frame deliveries @ [Frame fin])"
    unfolding receive_file_def info by (rule receive_info_first)
  also have "\<dots> = receive_loop md5 ?s2 [Frame fin]"
    by (rule receive_loop_data) (simp_all add: data)
  also have "\<dots> = (?s2\<lparr>disk := (disk ?s2)(fname \<mapsto> assemble (int n) (chunks ?s2)),
                        verdict := Some (md5 (assemble (int n) (chunks ?s2)) = md5 content)\<rparr>, True)"
    unfolding fr(4)
    by (rule receive_complete [where info = info]) (simp_all add: info file_info_packet_def)
  finally have res: "receive_file md5 (Frame info # map Frame deliveries @ [Frame fin]) =
       (?s2\<lparr>disk := (disk ?s2)(fname \<mapsto> content), verdict := Some True\<rparr>, True)"
    by (simp only: whole simp_thms)
  have "int n = \<lceil>real (length content) / real chunk_size\<rceil>"
    unfolding n_def using fr(1) by (rule num_chunks_ceiling)
  with res len show ?thesis by (simp add: n_def)
qed

theorem file_round_trip_witness:
  "send_file hex 2 ''NODE_A'' ''NODE_B'' ''f.bin'' (Some [1, 2, 3, 4, 5])
       \<lparr>info_sent = True, ack = Some ''ACK''\<rparr>
     = Inr (True,
         file_info_packet ''NODE_A'' ''NODE_B'' ''f.bin'' 5 3 (hex [1, 2, 3, 4, 5])
           # [file_data_packet 0 3 [1, 2], file_data_packet 1 3 [3, 4], file_data_packet 2 3 [5]]
           @ [file_complete_packet ''f.bin'' (hex [1, 2, 3, 4, 5])])
   \<and> last_stored 0 [file_data_packet 2 3 [5], file_data_packet 0 3 [9, 9],
                      file_data_packet 1 3 [3, 4], file_data_packet 0 3 [1, 2]]
       = Some (file_data_packet 0 3 [1, 2])
   \<and> disk (fst (receive_file hex
         (Frame (file_info_packet ''NODE_A'' ''NODE_B'' ''f.bin'' 5 3 (hex [1, 2, 3, 4, 5]))
            # map Frame [file_data_packet 2 3 [5], file_data_packet 0 3 [9, 9],
                         file_data_packet 1 3 [3, 4], file_data_packet 0 3 [1, 2]]
            @ [Frame (file_complete_packet ''f.bin'' (hex [1, 2, 3, 4, 5]))]))) ''f.bin''
       = Some [1, 2, 3, 4, 5]
   \<and> verdict (fst (receive_file hex
         (Frame (file_info_packet ''NODE_A'' ''NODE_B'' ''f.bin'' 5 3 (hex [1, 2, 3, 4, 5]))
            # map Frame [file_data_packet 2 3 [5], file_data_packet 0 3 [9, 9],
                         file_data_packet 1 3 [3, 4], file_data_packet 0 3 [1, 2]]
            @ [Frame (file_complete_packet ''f.bin'' (hex [1, 2, 3, 4, 5]))])))
       = Some True"
proof -
  let ?ds = "[file_data_packet 2 3 [5], file_data_packet 0 3 [9, 9],
              file_data_packet 1 3 [3, 4], file_data_packet 0 3 [1, 2]]"
  let ?dfs = "[file_data_packet 0 3 [1, 2], file_data_packet 1 3 [3, 4], file_data_packet 2 3 [5]]"
  have sent: "send_file hex 2 ''NODE_A'' ''NODE_B'' ''f.bin'' (Some [1, 2, 3, 4, 5])
       \<lparr>info_sent = True, ack = Some ''ACK''\<rparr>
     = Inr (True,
         file_info_packet ''NODE_A'' ''NODE_B'' ''f.bin'' 5 3 (hex [1, 2, 3, 4, 5])
           # ?dfs @ [file_complete_packet ''f.bin'' (hex [1, 2, 3, 4, 5])])"
    by code_simp
  have data: "\<forall>d \<in> set ?ds. p_type d = Some ''FILE_DATA''"
    by (simp add: file_data_packet_def)
  have l0: "last_stored 0 ?ds = Some (file_data_packet 0 3 [1, 2])"
    and l1: "last_stored 1 ?ds = Some (file_data_packet 1 3 [3, 4])"
    and l2: "last_stored 2 ?ds = Some (file_data_packet 2 3 [5])"
    by (simp_all add: last_stored_def file_data_packet_def)
  have last: "\<forall>k < length ?dfs. last_stored (int k) ?ds = Some (?dfs ! k)"
  proof (intro allI impI)
    fix k assume "k < length ?dfs"
    then consider "k = 0" | "k = 1" | "k = 2" by fastforce
    then show "last_stored (int k) ?ds = Some (?dfs ! k)"
      using l0 l1 l2 by cases simp_all
  qed
  from file_round_trip [OF sent data last] sent l0 show ?thesis by blast
qed

lemma session_result:
  assumes send: "send_file md5 cs node_id dest fname (Some content) lnk
                   = Inr (True, info # dfs @ [fin])"
    and sub: "set ds \<subseteq> set dfs"
    and n: "n = (length content + cs - 1) div cs"
    and piece: "\<And>i. piece i = take cs (drop (i * cs) content)"
    and w: "w = concat (map (\<lambda>i. if file_data_packet i n (piece i) \<in> set ds
                                   then piece i else []) [0..<n])"
  shows "receive_file md5 (Frame info # map Frame ds @ [Frame fin]) =
           (\<lparr>file_info = Some info, chunks = store_all Map.empty ds,
             disk = [fname \<mapsto> w], acks = 1, verdict = Some (md5 w = md5 content)\<rparr>, True)"
proof -
  note fr = send_file_frames [OF send]
  have dfs: "dfs = map (\<lambda>i. file_data_packet i n (piece i)) [0..<n]"
    using fr(3) n piece by simp
  have info: "info = file_info_packet node_id dest fname (length content) n (md5 content)"
    using fr(2) n by simp
  have ds_sender: "\<forall>d \<in> set ds. \<exists>i. d = file_data_packet i n (piece i)"
    using sub dfs by auto
  then have ds_type: "\<forall>d \<in> set ds. p_type d = Some ''FILE_DATA''"
    by (auto simp: file_data_packet_def)
  let ?s1 = "recv_init\<lparr>file_info := Some info, acks := 1\<rparr>"
  let ?s2 = "?s1\<lparr>chunks := store_all (chunks ?s1) ds\<rparr>"
  have "receive_file md5 (Frame info # map Frame ds @ [Frame fin]) =
          receive_loop md5 ?s1 (map Frame ds @ [Frame fin])"
    unfolding receive_file_def info by (rule receive_info_first)
  also have "\<dots> = receive_loop md5 ?s2 [Frame fin]"
    by (rule receive_loop_data) (simp_all add: ds_type)
  also have "\<dots> = (?s2\<lparr>disk := (disk ?s2)(fname \<mapsto> assemble (int n) (chunks ?s2)),
                        verdict := Some (md5 (assemble (int n) (chunks ?s2)) = md5 content)\<rparr>, True)"
    unfolding fr(4)
    by (rule receive_complete [where info = info]) (simp_all add: info file_info_packet_def)
  finally have res: "receive_file md5 (Frame info # map Frame ds @ [Frame fin]) =
       (?s2\<lparr>disk := (disk ?s2)(fname \<mapsto> assemble (int n) (chunks ?s2)),
            verdict := Some (md5 (assemble (int n) (chunks ?s2)) = md5 content)\<rparr>, True)" .
  have cm: "chunks ?s2 = store_all Map.empty ds" by (simp add: recv_init_def)
  have "\<forall>i < n. store_all Map.empty ds (int i) =
          (if file_data_packet i n (piece i) \<in> set ds then Some (piece i) else None)"
    using store_all_sender [OF ds_sender, of Map.empty] by simp
  then have "assemble (int n) (store_all Map.empty ds) = w"
    unfolding w by (rule assemble_pointwise)
  with res cm show ?thesis by (simp add: recv_init_def)
qed

text \<open>
  Claim C2, as the code has it. The receiver has no check of its own for a gap: it
  writes the chunks it holds and compares digests. When it gets FILE\_INFO, then some
  but not all of the FILE\_DATA frames \<open>send_file\<close> emitted, then FILE\_COMPLETE, the
  index of a frame that never arrived is absent from the chunk map, the file written is
  strictly shorter than the original, and a match is reported exactly when the digest
  of those shorter bytes equals the announced digest of the original.
\<close>

theorem gap_shortens_file:
  assumes "send_file md5 chunk_size node_id dest fname (Some content) lnk
             = Inr (True, info # dfs @ [fin])"
    and "set deliveries \<subseteq> set dfs"
    and "missing \<in> set dfs" and "missing \<notin> set deliveries"
  shows "snd (receive_file md5 (Frame info # map Frame deliveries @ [Frame fin]))
    \<and> (\<exists>i. p_chunk missing = Some i
           \<and> chunks (fst (receive_file md5 (Frame info # map Frame deliveries @ [Frame fin]))) i
               = None)
    \<and> (\<exists>w. disk (fst (receive_file md5 (Frame info # map Frame deliveries @ [Frame fin]))) fname
               = Some w
           \<and> length w < length content
           \<and> verdict (fst (receive_file md5 (Frame info # map Frame deliveries @ [Frame fin])))
               = Some (md5 w = md5 content))"
proof -
  define n where "n = (length content + chunk_size - 1) div chunk_size"
  define piece where "piece = (\<lambda>i. take chunk_size (drop (i * chunk_size) content))"
  define w where "w = concat (map (\<lambda>i. if file_data_packet i n (piece i) \<in> set deliveries
                                         then piece i else []) [0..<n])"
  have pc: "\<And>i. piece i = take chunk_size (drop (i * chunk_size) content)"
    by (simp add: piece_def)
  note fr = send_file_frames [OF assms(1)]
  have dfs: "dfs = map (\<lambda>i. file_data_packet i n (piece i)) [0..<n]"
    using fr(3) by (simp add: n_def piece_def)
  from assms(3) dfs obtain i0 where i0: "i0 < n" "missing = file_data_packet i0 n (piece i0)"
    by auto
  with assms(4) have gap: "file_data_packet i0 n (piece i0) \<notin> set deliveries" by simp
  have short: "length w < length content"
    unfolding w_def
    by (rule written_short
          [where present = "\<lambda>i. file_data_packet i n (piece i) \<in> set deliveries",
           OF fr(1) n_def pc i0(1) gap])
  have res: "receive_file md5 (Frame info # map Frame deliveries @ [Frame fin]) =
           (\<lparr>file_info = Some info, chunks = store_all Map.empty deliveries,
             disk = [fname \<mapsto> w], acks = 1, verdict = Some (md5 w = md5 content)\<rparr>, True)"
    by (rule session_result [OF assms(1) assms(2) n_def pc w_def])
  have "\<forall>d \<in> set deliveries. \<exists>i. d = file_data_packet i n (piece i)"
    using assms(2) dfs by auto
  from store_all_sender [OF this, of Map.empty i0] gap
  have "store_all Map.empty deliveries (int i0) = None" by simp
  moreover have "p_chunk missing = Some (int i0)" using i0(2) by (simp add: file_data_packet_def)
  ultimately show ?thesis using res short by simp
qed

theorem gap_shortens_file_witness:
  "send_file hex 2 ''NODE_A'' ''NODE_B'' ''f.bin'' (Some [1, 2, 3, 4, 5])
       \<lparr>info_sent = True, ack = Some ''ACK''\<rparr>
     = Inr (True,
         file_info_packet ''NODE_A'' ''NODE_B'' ''f.bin'' 5 3 (hex [1, 2, 3, 4, 5])
           # [file_data_packet 0 3 [1, 2], file_data_packet 1 3 [3, 4], file_data_packet 2 3 [5]]
           @ [file_complete_packet ''f.bin'' (hex [1, 2, 3, 4, 5])])
   \<and> file_data_packet 1 3 [3, 4] \<notin> set [file_data_packet 2 3 [5], file_data_packet 0 3 [1, 2]]
   \<and> disk (fst (receive_file hex
         (Frame (file_info_packet ''NODE_A'' ''NODE_B'' ''f.bin'' 5 3 (hex [1, 2, 3, 4, 5]))
            # map Frame [file_data_packet 2 3 [5], file_data_packet 0 3 [1, 2]]
            @ [Frame (file_complete_packet ''f.bin'' (hex [1, 2, 3, 4, 5]))]))) ''f.bin''
       = Some [1, 2, 5]
   \<and> verdict (fst (receive_file hex
         (Frame (file_info_packet ''NODE_A'' ''NODE_B'' ''f.bin'' 5 3 (hex [1, 2, 3, 4, 5]))
            # map Frame [file_data_packet 2 3 [5], file_data_packet 0 3 [1, 2]]
            @ [Frame (file_complete_packet ''f.bin'' (hex [1, 2, 3, 4, 5]))])))
       = Some False"
proof -
  let ?r = "receive_file hex
         (Frame (file_info_packet ''NODE_A'' ''NODE_B'' ''f.bin'' 5 3 (hex [1, 2, 3, 4, 5]))
            # map Frame [file_data_packet 2 3 [5], file_data_packet 0 3 [1, 2]]
            @ [Frame (file_complete_packet ''f.bin'' (hex [1, 2, 3, 4, 5]))])"
  have sent: "send_file hex 2 ''NODE_A'' ''NODE_B'' ''f.bin'' (Some [1, 2, 3, 4, 5])
       \<lparr>info_sent = True, ack = Some ''ACK''\<rparr>
     = Inr (True,
         file_info_packet ''NODE_A'' ''NODE_B'' ''f.bin'' 5 3 (hex [1, 2, 3, 4, 5])
           # [file_data_packet 0 3 [1, 2], file_data_packet 1 3 [3, 4], file_data_packet 2 3 [5]]
           @ [file_complete_packet ''f.bin'' (hex [1, 2, 3, 4, 5])])"
    by code_simp
  have sub: "set [file_data_packet 2 3 [5], file_data_packet 0 3 [1, 2]]
       \<subseteq> set [file_data_packet 0 3 [1, 2], file_data_packet 1 3 [3, 4], file_data_packet 2 3 [5]]"
    by auto
  have mem: "file_data_packet 1 3 [3, 4]
       \<in> set [file_data_packet 0 3 [1, 2], file_data_packet 1 3 [3, 4], file_data_packet 2 3 [5]]"
    by simp
  have gap: "file_data_packet 1 3 [3, 4] \<notin> set [file_data_packet 2 3 [5], file_data_packet 0 3 [1, 2]]"
    by (simp add: file_data_packet_def)
  from gap_shortens_file [OF sent sub mem gap]
  obtain w where w: "disk (fst ?r) ''f.bin'' = Some w" "length w < length [1, 2, 3, 4, 5 :: byte]"
    "verdict (fst ?r) = Some (hex w = hex [1, 2, 3, 4, 5])"
    by blast
  have "disk (fst ?r) ''f.bin'' = Some [1, 2, 5]"
    by (simp add: receive_file_def receive_step_def recv_init_def file_info_packet_def
          file_data_packet_def file_complete_packet_def assemble_def Let_def
          upt_0_3)
  with w(1) have "w = [1, 2, 5]" by simp
  moreover have "hex [1, 2, 5] \<noteq> hex [1, 2, 3, 4, 5]"
    by (simp add: hex_def hex_digit_def)
  ultimately show ?thesis using sent gap w by simp
qed

text \<open>
  The claim as the specification states it fails: FILE\_INFO announces two chunks, only
  chunk 0 arrives, carrying the two bytes of the original, and FILE\_COMPLETE announces
  the digest of those two bytes. Index 1 is absent from the chunk map when
  FILE\_COMPLETE arrives, and the receiver reports the hash as verified.
\<close>

theorem match_reported_with_absent_index:
  "chunks (fst (receive_file hex
       [Frame (file_info_packet ''NODE_A'' ''NODE_B'' ''f.bin'' 2 2 (hex [1, 2])),
        Frame (file_data_packet 0 2 [1, 2]),
        Frame (file_complete_packet ''f.bin'' (hex [1, 2]))])) 1 = None
   \<and> disk (fst (receive_file hex
       [Frame (file_info_packet ''NODE_A'' ''NODE_B'' ''f.bin'' 2 2 (hex [1, 2])),
        Frame (file_data_packet 0 2 [1, 2]),
        Frame (file_complete_packet ''f.bin'' (hex [1, 2]))])) ''f.bin'' = Some [1, 2]
   \<and> verdict (fst (receive_file hex
       [Frame (file_info_packet ''NODE_A'' ''NODE_B'' ''f.bin'' 2 2 (hex [1, 2])),
        Frame (file_data_packet 0 2 [1, 2]),
        Frame (file_complete_packet ''f.bin'' (hex [1, 2]))])) = Some True"
  by (simp add: receive_file_def receive_step_def recv_init_def file_info_packet_def
        file_data_packet_def file_complete_packet_def assemble_def Let_def
        upt_0_2)

section \<open>Spectrum scan: proofs\<close>







end
